theory Spec2Isabelle
  imports Main "HOL-Library.Multiset"
begin

section \<open>Operator lists for selective builds (tools/code_analyzer/gen_oplist.py)\<close>

subsection \<open>Data model\<close>

text \<open>
  The attributes of one operator that \<^verbatim>\<open>gen_oplist.py\<close> reads:
  \<^verbatim>\<open>op.is_used_for_training\<close> and \<^verbatim>\<open>op.include_all_overloads\<close>. The operator's
  name is the key under which the record is stored.
\<close>

record SelectiveBuildOperator =
  include_all_overloads :: bool
  is_used_for_training :: bool

text \<open>
  \<^verbatim>\<open>selective_builder.operators\<close> is a Python dict from operator name to operator
  record. A dict iterates in insertion order, and the order shows in the message of
  \<^verbatim>\<open>throw_if_any_op_includes_overloads\<close>, so the dict is the list of its items.
\<close>

record SelectiveBuilder =
  operators :: "(string \<times> SelectiveBuildOperator) list"

text \<open>A dict holds each key once.\<close>

definition well_formed :: "SelectiveBuilder \<Rightarrow> bool" where
  "well_formed sb = distinct (map fst (operators sb))"

text \<open>\<^verbatim>\<open>d[name]\<close>, as a partial function.\<close>

definition lookup :: "SelectiveBuilder \<Rightarrow> string \<Rightarrow> SelectiveBuildOperator option" where
  "lookup sb = map_of (operators sb)"

text \<open>
  Python's \<^verbatim>\<open>==\<close> on two dicts: the same items, in any order.
\<close>

definition builder_eq :: "SelectiveBuilder \<Rightarrow> SelectiveBuilder \<Rightarrow> bool" where
  "builder_eq a b = (set (operators a) = set (operators b))"

text \<open>
  The exceptions of the model: \<^verbatim>\<open>Exception(message)\<close> as
  \<^verbatim>\<open>throw_if_any_op_includes_overloads\<close> raises it, and the built-in ones that the
  statements modelled here can raise.
\<close>

datatype error =
  Exception string | TypeError | IndexError | AttributeError | KeyError string | JSONDecodeError

subsection \<open>The derived queries\<close>

text \<open>
  \<^verbatim>\<open>
  def extract_all_operators(selective_builder):
      ops = []
      for (op_name, op) in selective_builder.operators.items():
          ops.append(op_name)
      return set(ops)
  \<close>
  The loop is a recursion over the items that are left, with \<^verbatim>\<open>ops\<close> as accumulator.
\<close>

fun all_operators_loop ::
  "(string \<times> SelectiveBuildOperator) list \<Rightarrow> string list \<Rightarrow> string list" where
  "all_operators_loop [] ops = ops"
| "all_operators_loop ((op_name, op) # items) ops = all_operators_loop items (ops @ [op_name])"

definition extract_all_operators :: "SelectiveBuilder \<Rightarrow> string set" where
  "extract_all_operators selective_builder =
     set (all_operators_loop (operators selective_builder) [])"

text \<open>
  \<^verbatim>\<open>
  def extract_training_operators(selective_builder):
      ops = []
      for (op_name, op) in selective_builder.operators.items():
          if op.is_used_for_training:
              ops.append(op_name)
      return set(ops)
  \<close>
\<close>

fun training_operators_loop ::
  "(string \<times> SelectiveBuildOperator) list \<Rightarrow> string list \<Rightarrow> string list" where
  "training_operators_loop [] ops = ops"
| "training_operators_loop ((op_name, op) # items) ops =
     (if is_used_for_training op
      then training_operators_loop items (ops @ [op_name])
      else training_operators_loop items ops)"

definition extract_training_operators :: "SelectiveBuilder \<Rightarrow> string set" where
  "extract_training_operators selective_builder =
     set (training_operators_loop (operators selective_builder) [])"

text \<open>
  \<^verbatim>\<open>", ".join(ops)\<close>: the strings with the separator between neighbours.
\<close>

fun join :: "string \<Rightarrow> string list \<Rightarrow> string" where
  "join sep [] = []"
| "join sep [x] = x"
| "join sep (x # y # ys) = x @ sep @ join sep (y # ys)"

text \<open>
  \<^verbatim>\<open>
  def throw_if_any_op_includes_overloads(selective_builder):
      ops = []
      for (op_name, op) in selective_builder.operators.items():
          if op.include_all_overloads:
              ops.append(op_name)
      if ops:
          raise Exception(
              ("Operators that include all overloads are "
               + "not allowed since --allow_include_all_overloads "
               + "was specified: {}").format(", ".join(ops)))
  \<close>
  The function returns \<^verbatim>\<open>None\<close> (here \<open>Inr ()\<close>) or raises (here \<open>Inl\<close>).
\<close>

fun include_overloads_loop ::
  "(string \<times> SelectiveBuildOperator) list \<Rightarrow> string list \<Rightarrow> string list" where
  "include_overloads_loop [] ops = ops"
| "include_overloads_loop ((op_name, op) # items) ops =
     (if include_all_overloads op
      then include_overloads_loop items (ops @ [op_name])
      else include_overloads_loop items ops)"

definition overloads_message :: "string list \<Rightarrow> string" where
  "overloads_message ops =
     (''Operators that include all overloads are ''
      @ ''not allowed since --allow_include_all_overloads ''
      @ ''was specified: '') @ join '', '' ops"

definition throw_if_any_op_includes_overloads :: "SelectiveBuilder \<Rightarrow> error + unit" where
  "throw_if_any_op_includes_overloads selective_builder =
     (let ops = include_overloads_loop (operators selective_builder) []
      in if ops \<noteq> [] then Inl (Exception (overloads_message ops)) else Inr ())"

subsection \<open>The combinator\<close>

text \<open>
  Modelled from the spec: \<^verbatim>\<open>combine_selective_builders\<close> and the operator merge it
  uses live in \<^verbatim>\<open>tools/codegen/selective_build/selector.py\<close>, which is not among the
  sources; \<^verbatim>\<open>gen_oplist.py\<close> only imports them. The spec, section 4.2: a record
  present in both inputs gets each flag as the logical OR of the two inputs' flags.
\<close>

definition combine_operators ::
  "SelectiveBuildOperator \<Rightarrow> SelectiveBuildOperator \<Rightarrow> SelectiveBuildOperator" where
  "combine_operators lhs rhs =
     \<lparr>include_all_overloads = include_all_overloads lhs \<or> include_all_overloads rhs,
      is_used_for_training = is_used_for_training lhs \<or> is_used_for_training rhs\<rparr>"

text \<open>
  Modelled from the spec: \<^verbatim>\<open>combine_selective_builders(a, b)\<close> (section 4.2). One
  entry for each name of either input; a name of one input only keeps its record; a name
  of both gets the merged record. The spec gives the entries no order: the model lists the
  names of \<open>a\<close> in \<open>a\<close>'s order, then the names only \<open>b\<close> has.
\<close>

definition combine_selective_builders ::
  "SelectiveBuilder \<Rightarrow> SelectiveBuilder \<Rightarrow> SelectiveBuilder" where
  "combine_selective_builders a b =
     \<lparr>operators =
        map (\<lambda>(op_name, op).
               (op_name, case map_of (operators b) op_name of
                           None \<Rightarrow> op
                         | Some op' \<Rightarrow> combine_operators op op'))
            (operators a)
        @ filter (\<lambda>(op_name, op). map_of (operators a) op_name = None) (operators b)\<rparr>"

text \<open>
  Modelled from the spec: \<^verbatim>\<open>SelectiveBuilder.from_yaml_dict({})\<close>, the descriptor built
  from a manifest that lists no operator (section 4.1): the empty descriptor.
\<close>

definition from_yaml_dict_empty :: SelectiveBuilder where
  "from_yaml_dict_empty = \<lparr>operators = []\<rparr>"

subsection \<open>The fold and the validation in \<^verbatim>\<open>main\<close>\<close>

text \<open>
  \<^verbatim>\<open>functools.reduce(function, iterable)\<close> with no initial value: a left fold that
  starts from the first element, and a \<^verbatim>\<open>TypeError\<close> on an empty iterable.
\<close>

definition reduce :: "('a \<Rightarrow> 'a \<Rightarrow> 'a) \<Rightarrow> 'a list \<Rightarrow> error + 'a" where
  "reduce f xs = (case xs of [] \<Rightarrow> Inl TypeError | x # rest \<Rightarrow> Inr (foldl f x rest))"

text \<open>
  \<^verbatim>\<open>
  selective_builder = SelectiveBuilder.from_yaml_dict({})
  if len(selective_builders) > 0:
      selective_builder = reduce(combine_selective_builders, selective_builders)
  \<close>
\<close>

definition main_combine :: "SelectiveBuilder list \<Rightarrow> error + SelectiveBuilder" where
  "main_combine selective_builders =
     (let selective_builder = from_yaml_dict_empty
      in if length selective_builders > 0
         then reduce combine_selective_builders selective_builders
         else Inr selective_builder)"

text \<open>
  \<^verbatim>\<open>
  if not options.allow_include_all_overloads:
      throw_if_any_op_includes_overloads(selective_builder)
  \<close>
  The result is the descriptor that \<^verbatim>\<open>main\<close> goes on to serialise, or the exception
  that ends the run.
\<close>

definition main_validate :: "bool \<Rightarrow> SelectiveBuilder list \<Rightarrow> error + SelectiveBuilder" where
  "main_validate allow_include_all_overloads selective_builders =
     (case main_combine selective_builders of
        Inl e \<Rightarrow> Inl e
      | Inr selective_builder \<Rightarrow>
          if \<not> allow_include_all_overloads
          then (case throw_if_any_op_includes_overloads selective_builder of
                  Inl e \<Rightarrow> Inl e
                | Inr u \<Rightarrow> Inr selective_builder)
          else Inr selective_builder)"

subsection \<open>The supported-models source file\<close>

text \<open>
  What \<^verbatim>\<open>gen_supported_mobile_models\<close> reads of a model dict: whether it has the key
  \<^verbatim>\<open>"debug_info"\<close> and, if so, the list stored there, whose first element is a JSON
  text. Of the decoded JSON it reads \<^verbatim>\<open>is_new_style_rule\<close> and, for each asset of
  \<^verbatim>\<open>asset_info\<close>, the elements of \<^verbatim>\<open>md5_hash\<close>.
\<close>

record AssetInfo =
  md5_hash :: "string list"

record DebugInfo =
  is_new_style_rule :: bool
  asset_info :: "(string \<times> AssetInfo) list"

record ModelDict =
  debug_info :: "string list option"

text \<open>
  \<^verbatim>\<open>md5_hashes = set()\<close> holds strings. The model keeps the elements in the order of
  their first insertion; \<^verbatim>\<open>md5_hashes.update(xs)\<close> adds the elements of \<open>xs\<close> that
  are new.
\<close>

definition set_update :: "string list \<Rightarrow> string list \<Rightarrow> string list" where
  "set_update s xs = fold (\<lambda>x acc. if x \<in> set acc then acc else acc @ [x]) xs s"

text \<open>
  \<^verbatim>\<open>
  for asset, asset_info in debug_info["asset_info"].items():
      md5_hashes.update(asset_info["md5_hash"])
  \<close>
\<close>

fun update_from_assets :: "(string \<times> AssetInfo) list \<Rightarrow> string list \<Rightarrow> string list" where
  "update_from_assets [] md5_hashes = md5_hashes"
| "update_from_assets ((asset, info) # assets) md5_hashes =
     update_from_assets assets (set_update md5_hashes (md5_hash info))"

text \<open>
  \<^verbatim>\<open>
  for model_dict in model_dicts:
      if "debug_info" in model_dict:
          debug_info = json.loads(model_dict["debug_info"][0])
          if debug_info["is_new_style_rule"]:
              for asset, asset_info in debug_info["asset_info"].items(): ...
  \<close>
  \<open>json_loads\<close> is given: it stands for \<^verbatim>\<open>json.loads\<close> and the reads of the keys of
  its result, and returns the exception when one of them raises. Indexing an empty
  \<^verbatim>\<open>debug_info\<close> list raises \<^verbatim>\<open>IndexError\<close>.
\<close>

fun collect_md5_hashes ::
  "(string \<Rightarrow> error + DebugInfo) \<Rightarrow> ModelDict list \<Rightarrow> string list \<Rightarrow> error + string list" where
  "collect_md5_hashes json_loads [] md5_hashes = Inr md5_hashes"
| "collect_md5_hashes json_loads (model_dict # model_dicts) md5_hashes =
     (case debug_info model_dict of
        None \<Rightarrow> collect_md5_hashes json_loads model_dicts md5_hashes
      | Some [] \<Rightarrow> Inl IndexError
      | Some (json_text # others) \<Rightarrow>
          (case json_loads json_text of
             Inl e \<Rightarrow> Inl e
           | Inr info \<Rightarrow>
               if is_new_style_rule info
               then collect_md5_hashes json_loads model_dicts
                      (update_from_assets (asset_info info) md5_hashes)
               else collect_md5_hashes json_loads model_dicts md5_hashes))"

text \<open>
  \<^verbatim>\<open>
  supported_hashes = ""
  for md5 in md5_hashes:
      supported_hashes += '"{}",\n'.format(md5)
  \<close>
  \<open>hash_line md5\<close> is the formatted string: the hash in double quotes, a comma and a
  newline.
\<close>

definition hash_line :: "string \<Rightarrow> string" where
  "hash_line md5 = [CHR 0x22] @ md5 @ [CHR 0x22] @ '','' @ [CHR 0x0A]"

fun supported_hashes_loop :: "string list \<Rightarrow> string \<Rightarrow> string" where
  "supported_hashes_loop [] supported_hashes = supported_hashes"
| "supported_hashes_loop (md5 # rest) supported_hashes =
     supported_hashes_loop rest (supported_hashes @ hash_line md5)"

text \<open>
  The template \<^verbatim>\<open>supported_mobile_models_source\<close> after \<^verbatim>\<open>str.format\<close> has turned
  each doubled brace into one: the text before the field
  \<^verbatim>\<open>{supported_hashes_template}\<close> and the text after it.
\<close>

definition unlines :: "string list \<Rightarrow> string" where
  "unlines ls = concat (map (\<lambda>l. l @ [CHR 0x0A]) ls)"

definition source_before_hashes :: string where
  "source_before_hashes = unlines
     [''/*'',
      '' * Generated by gen_oplist.py'',
      '' */'',
      ''#include '' @ [CHR 0x22] @ ''fb/supported_mobile_models/SupportedMobileModels.h'' @ [CHR 0x22],
      '''',
      '''',
      ''struct SupportedMobileModelCheckerRegistry {'',
      ''  SupportedMobileModelCheckerRegistry() {'',
      ''    auto& ref = facebook::pytorch::supported_model::SupportedMobileModelChecker::singleton();'',
      ''    ref.set_supported_md5_hashes(std::unordered_set<std::string>{'']
     @ ''      ''"

definition source_after_hashes :: string where
  "source_after_hashes = unlines
     ['''',
      ''    });'',
      ''  }'',
      ''};'',
      '''',
      ''// This is a global object, initializing which causes the registration to happen.'',
      ''SupportedMobileModelCheckerRegistry register_model_versions;'',
      '''',
      '''']"

text \<open>
  \<^verbatim>\<open>gen_supported_mobile_models(model_dicts, output_dir)\<close>: the bytes written to
  \<^verbatim>\<open>SupportedMobileModelsRegistration.cpp\<close>, or the exception raised before the file
  is opened.

  \<^verbatim>\<open>for md5 in md5_hashes\<close> visits the elements of a set of strings. Python fixes no
  order for that: CPython derives it from the strings' hashes, which are salted anew in each
  process. The order is therefore a parameter of a run, \<open>set_iteration\<close>, which maps the
  elements of the set to the sequence in which the loop visits them.
\<close>

definition gen_supported_mobile_models ::
  "(string \<Rightarrow> error + DebugInfo) \<Rightarrow> (string list \<Rightarrow> string list) \<Rightarrow> ModelDict list
     \<Rightarrow> error + string" where
  "gen_supported_mobile_models json_loads set_iteration model_dicts =
     (case collect_md5_hashes json_loads model_dicts [] of
        Inl e \<Rightarrow> Inl e
      | Inr md5_hashes \<Rightarrow>
          (let supported_hashes = supported_hashes_loop (set_iteration md5_hashes) []
           in Inr (source_before_hashes @ supported_hashes @ source_after_hashes)))"

text \<open>
  An iteration order visits every element of the set, each once.
\<close>

definition valid_iteration :: "(string list \<Rightarrow> string list) \<Rightarrow> bool" where
  "valid_iteration set_iteration = (\<forall>s. mset (set_iteration s) = mset s)"

subsection \<open>The queries as runs on a store of objects\<close>

text \<open>
  Python passes references, and a callee can change the object an argument refers to. To
  state what a call leaves unchanged, the calls are modelled once more on a store: a list of
  objects, a reference being the position of its object. A new object goes to the end of
  the store, so its reference differs from every reference that existed before. An
  exception leaves the store as it is at the \<^verbatim>\<open>raise\<close>.
\<close>

datatype pyobj =
  BuilderObj SelectiveBuilder
| ListObj "string list"
| SetObj "string set"

type_synonym store = "pyobj list"

definition new_object :: "pyobj \<Rightarrow> store \<Rightarrow> nat \<times> store" where
  "new_object obj s = (length s, s @ [obj])"

text \<open>\<^verbatim>\<open>selective_builder.operators.items()\<close>, for the object at \<open>r\<close>.\<close>

definition operators_items ::
  "nat \<Rightarrow> store \<Rightarrow> error + (string \<times> SelectiveBuildOperator) list" where
  "operators_items r s =
     (if r < length s
      then (case s ! r of BuilderObj b \<Rightarrow> Inr (operators b) | _ \<Rightarrow> Inl AttributeError)
      else Inl AttributeError)"

text \<open>\<^verbatim>\<open>ops.append(op_name)\<close>: the list object at \<open>r\<close> is changed in place.\<close>

definition list_append :: "nat \<Rightarrow> string \<Rightarrow> store \<Rightarrow> (error + unit) \<times> store" where
  "list_append r x s =
     (if r < length s
      then (case s ! r of
              ListObj xs \<Rightarrow> (Inr (), s[r := ListObj (xs @ [x])])
            | _ \<Rightarrow> (Inl AttributeError, s))
      else (Inl AttributeError, s))"

definition list_elements :: "nat \<Rightarrow> store \<Rightarrow> error + string list" where
  "list_elements r s =
     (if r < length s
      then (case s ! r of ListObj xs \<Rightarrow> Inr xs | _ \<Rightarrow> Inl TypeError)
      else Inl TypeError)"

text \<open>
  The loop of the three queries: for each item, in order, append the name to the list
  \<^verbatim>\<open>ops\<close> if \<open>selected op\<close> holds. The loop body writes to nothing else, so the items
  are those read when the loop starts.
\<close>

fun append_selected ::
  "(SelectiveBuildOperator \<Rightarrow> bool) \<Rightarrow> (string \<times> SelectiveBuildOperator) list \<Rightarrow> nat \<Rightarrow>
     store \<Rightarrow> (error + unit) \<times> store" where
  "append_selected selected [] ops s = (Inr (), s)"
| "append_selected selected ((op_name, op) # items) ops s =
     (if selected op
      then (case list_append ops op_name s of
              (Inl e, s') \<Rightarrow> (Inl e, s')
            | (Inr u, s') \<Rightarrow> append_selected selected items ops s')
      else append_selected selected items ops s)"

text \<open>
  \<^verbatim>\<open>ops = []\<close>, the loop, and the list that \<^verbatim>\<open>ops\<close> then refers to.
\<close>

definition collect_names ::
  "(SelectiveBuildOperator \<Rightarrow> bool) \<Rightarrow> nat \<Rightarrow> store \<Rightarrow> (error + string list) \<times> store" where
  "collect_names selected selective_builder s =
     (let (ops, s1) = new_object (ListObj []) s
      in case operators_items selective_builder s1 of
           Inl e \<Rightarrow> (Inl e, s1)
         | Inr items \<Rightarrow>
             (case append_selected selected items ops s1 of
                (Inl e, s2) \<Rightarrow> (Inl e, s2)
              | (Inr u, s2) \<Rightarrow>
                  (case list_elements ops s2 of
                     Inl e \<Rightarrow> (Inl e, s2)
                   | Inr names \<Rightarrow> (Inr names, s2))))"

text \<open>\<^verbatim>\<open>return set(ops)\<close> makes a new set object and returns the reference to it.\<close>

definition return_set :: "(error + string list) \<times> store \<Rightarrow> (error + nat) \<times> store" where
  "return_set run =
     (case run of
        (Inl e, s) \<Rightarrow> (Inl e, s)
      | (Inr names, s) \<Rightarrow> (let (r, s') = new_object (SetObj (set names)) s in (Inr r, s')))"

definition extract_all_operators_run :: "nat \<Rightarrow> store \<Rightarrow> (error + nat) \<times> store" where
  "extract_all_operators_run selective_builder s =
     return_set (collect_names (\<lambda>op. True) selective_builder s)"

definition extract_training_operators_run :: "nat \<Rightarrow> store \<Rightarrow> (error + nat) \<times> store" where
  "extract_training_operators_run selective_builder s =
     return_set (collect_names is_used_for_training selective_builder s)"

definition throw_if_any_op_includes_overloads_run ::
  "nat \<Rightarrow> store \<Rightarrow> (error + unit) \<times> store" where
  "throw_if_any_op_includes_overloads_run selective_builder s =
     (case collect_names include_all_overloads selective_builder s of
        (Inl e, s') \<Rightarrow> (Inl e, s')
      | (Inr ops, s') \<Rightarrow>
          if ops \<noteq> [] then (Inl (Exception (overloads_message ops)), s') else (Inr (), s'))"

text \<open>
  Modelled from the spec: \<^verbatim>\<open>combine_selective_builders\<close> as a call (its code is not
  among the sources). The spec, section 5: each call is a pure function producing a new
  descriptor; inputs are not mutated. The call reads the two descriptors and puts their
  combination into a new object.
\<close>

definition combine_selective_builders_run ::
  "nat \<Rightarrow> nat \<Rightarrow> store \<Rightarrow> (error + nat) \<times> store" where
  "combine_selective_builders_run lhs rhs s =
     (if lhs < length s \<and> rhs < length s
      then (case (s ! lhs, s ! rhs) of
              (BuilderObj a, BuilderObj b) \<Rightarrow>
                (let (r, s') = new_object (BuilderObj (combine_selective_builders a b)) s
                 in (Inr r, s'))
            | _ \<Rightarrow> (Inl AttributeError, s))
      else (Inl AttributeError, s))"

subsection \<open>Sample descriptors\<close>

text \<open>
  The descriptors of the spec's scenarios 1 and 2, used to evaluate the theorems at
  concrete inputs.
\<close>

definition scenario_A :: SelectiveBuilder where
  "scenario_A = \<lparr>operators =
     [(''aten::add'', \<lparr>include_all_overloads = False, is_used_for_training = False\<rparr>)]\<rparr>"

definition scenario_B :: SelectiveBuilder where
  "scenario_B = \<lparr>operators =
     [(''aten::add'', \<lparr>include_all_overloads = True, is_used_for_training = False\<rparr>)]\<rparr>"

definition scenario_C :: SelectiveBuilder where
  "scenario_C = \<lparr>operators =
     [(''aten::mul'', \<lparr>include_all_overloads = False, is_used_for_training = True\<rparr>),
      (''aten::add'', \<lparr>include_all_overloads = False, is_used_for_training = True\<rparr>)]\<rparr>"

definition scenario_D :: SelectiveBuilder where
  "scenario_D = \<lparr>operators =
     [(''aten::add'', \<lparr>include_all_overloads = True, is_used_for_training = False\<rparr>),
      (''aten::mul'', \<lparr>include_all_overloads = False, is_used_for_training = True\<rparr>)]\<rparr>"

text \<open>
  A model dict whose debug info is the JSON text
  \<^verbatim>\<open>{"is_new_style_rule": true, "asset_info": {"model.ptl": {"md5_hash": ["0a1b", "2c3d"]}}}\<close>,
  and a decoder that gives this text what \<^verbatim>\<open>json.loads\<close> gives it.
\<close>

definition quoted :: "string \<Rightarrow> string" where
  "quoted s = [CHR 0x22] @ s @ [CHR 0x22]"

definition sample_json_text :: string where
  "sample_json_text =
     ''{'' @ quoted ''is_new_style_rule'' @ '': true, '' @ quoted ''asset_info'' @ '': {''
     @ quoted ''model.ptl'' @ '': {'' @ quoted ''md5_hash'' @ '': [''
     @ quoted ''0a1b'' @ '', '' @ quoted ''2c3d'' @ '']}}}''"

definition sample_debug_info :: DebugInfo where
  "sample_debug_info =
     \<lparr>is_new_style_rule = True,
      asset_info = [(''model.ptl'', \<lparr>md5_hash = [''0a1b'', ''2c3d'']\<rparr>)]\<rparr>"

definition sample_model_dict :: ModelDict where
  "sample_model_dict = \<lparr>debug_info = Some [sample_json_text]\<rparr>"

definition sample_json_loads :: "string \<Rightarrow> error + DebugInfo" where
  "sample_json_loads json_text =
     (if json_text = sample_json_text then Inr sample_debug_info else Inl JSONDecodeError)"

text \<open>Two iteration orders of a set: by first insertion, and the reverse of it.\<close>

definition insertion_order :: "string list \<Rightarrow> string list" where
  "insertion_order s = s"

definition reverse_order :: "string list \<Rightarrow> string list" where
  "reverse_order s = rev s"

text \<open>A store that holds two descriptors.\<close>

definition sample_store :: store where
  "sample_store = [BuilderObj scenario_D, BuilderObj scenario_A]"

section \<open>Properties\<close>

subsection \<open>What the loops collect\<close>

lemma all_operators_loop_eq:
  "all_operators_loop items ops = ops @ map fst items"
  by (induction items ops rule: all_operators_loop.induct) simp_all

lemma training_operators_loop_eq:
  "training_operators_loop items ops =
     ops @ map fst (filter (\<lambda>(n, op). is_used_for_training op) items)"
  by (induction items ops rule: training_operators_loop.induct) simp_all

lemma map_of_distinct_iff:
  "distinct (map fst xs) \<Longrightarrow> map_of xs k = Some v \<longleftrightarrow> (k, v) \<in> set xs"
  by (metis map_of_SomeD map_of_is_SomeI)

text \<open>
  C6: \<^verbatim>\<open>extract_all_operators(d)\<close> is exactly the set of keys of \<^verbatim>\<open>d.operators\<close>,
  whatever the flags of the records are: a name is returned precisely when the dict has an
  entry for it.
\<close>

theorem extract_all_operators_keys:
  "extract_all_operators d = dom (lookup d) \<and>
   extract_all_operators d = fst ` set (operators d)"
  by (simp add: extract_all_operators_def lookup_def all_operators_loop_eq dom_map_of_conv_image_fst)

theorem extract_all_operators_keys_witness:
  "extract_all_operators scenario_C = {''aten::mul'', ''aten::add''}"
proof -
  have "extract_all_operators scenario_C = fst ` set (operators scenario_C)"
    using extract_all_operators_keys [of scenario_C] by (rule conjunct2)
  then show ?thesis by (simp add: scenario_C_def)
qed

text \<open>
  C7: on a descriptor (a dict, so each name has one record),
  \<^verbatim>\<open>extract_training_operators(d)\<close> is exactly the set of names whose record has
  \<^verbatim>\<open>is_used_for_training = True\<close>, and it is a subset of
  \<^verbatim>\<open>extract_all_operators(d)\<close>.
\<close>

theorem extract_training_operators_spec:
  assumes "well_formed d"
  shows "extract_training_operators d =
           {n. \<exists>op. lookup d n = Some op \<and> is_used_for_training op} \<and>
         extract_training_operators d \<subseteq> extract_all_operators d"
proof -
  have d: "distinct (map fst (operators d))"
    using assms by (simp add: well_formed_def)
  have "extract_training_operators d =
          fst ` {p \<in> set (operators d). is_used_for_training (snd p)}"
    by (auto simp: extract_training_operators_def training_operators_loop_eq)
  also have "\<dots> = {n. \<exists>op. (n, op) \<in> set (operators d) \<and> is_used_for_training op}"
    by force
  also have "\<dots> = {n. \<exists>op. lookup d n = Some op \<and> is_used_for_training op}"
    using d by (simp add: lookup_def map_of_distinct_iff)
  finally have first: "extract_training_operators d =
      {n. \<exists>op. lookup d n = Some op \<and> is_used_for_training op}" .
  have "extract_training_operators d \<subseteq> extract_all_operators d"
    by (auto simp: extract_training_operators_def extract_all_operators_def
        training_operators_loop_eq all_operators_loop_eq)
  with first show ?thesis by simp
qed

theorem extract_training_operators_spec_witness:
  "well_formed scenario_D \<and>
   extract_training_operators scenario_D = {''aten::mul''} \<and>
   extract_training_operators scenario_D \<subseteq> extract_all_operators scenario_D"
proof -
  have wf: "well_formed scenario_D"
    by (simp add: well_formed_def scenario_D_def)
  have v: "extract_training_operators scenario_D = {''aten::mul''}"
    by (simp add: extract_training_operators_def scenario_D_def)
  from extract_training_operators_spec [OF wf]
  have "extract_training_operators scenario_D \<subseteq> extract_all_operators scenario_D"
    by (rule conjunct2)
  with wf v show ?thesis by (intro conjI)
qed

subsection \<open>The combinator as a merge of lookups\<close>

lemma lookup_combine:
  "lookup (combine_selective_builders a b) n =
     combine_options combine_operators (lookup a n) (lookup b n)"
proof -
  have *: "map_of (map (\<lambda>(k, v). (k, f k v)) xs) n = map_option (f n) (map_of xs n)" for f and xs :: "(string \<times> SelectiveBuildOperator) list"
    by (induction xs) auto
  have **: "map_of (filter (\<lambda>(k, v). P k) ys) n = (if P n then map_of ys n else None)" for P and ys :: "(string \<times> SelectiveBuildOperator) list"
    by (induction ys) auto
  show ?thesis
    by (simp add: lookup_def combine_selective_builders_def map_add_def * ** split: option.splits)
qed

lemma well_formed_combine:
  assumes "well_formed a" "well_formed b"
  shows "well_formed (combine_selective_builders a b)"
proof -
  let ?f = "\<lambda>(op_name, op).
      (op_name, case map_of (operators b) op_name of
                  None \<Rightarrow> op | Some op' \<Rightarrow> combine_operators op op')"
  let ?P = "\<lambda>(op_name, op :: SelectiveBuildOperator). map_of (operators a) op_name = None"
  have keys: "map fst (map ?f (operators a)) = map fst (operators a)"
    by (induction "operators a") auto
  have da: "distinct (map fst (map ?f (operators a)))"
    using assms(1) by (simp only: keys well_formed_def)
  have db: "distinct (map fst (filter ?P (operators b)))"
    using assms(2) unfolding well_formed_def by (rule distinct_map_filter)
  have disj: "set (map fst (map ?f (operators a))) \<inter> set (map fst (filter ?P (operators b))) = {}"
    unfolding keys by (force simp: map_of_eq_None_iff)
  have "distinct (map fst (map ?f (operators a) @ filter ?P (operators b)))"
    using da db disj by (simp only: map_append distinct_append)
  then show ?thesis
    by (simp add: well_formed_def combine_selective_builders_def)
qed

lemma builder_eq_lookup:
  "well_formed a \<Longrightarrow> well_formed b \<Longrightarrow> builder_eq a b \<longleftrightarrow> lookup a = lookup b"
  by (simp add: well_formed_def builder_eq_def lookup_def map_of_inject_set)

lemma combine_operators_commute: "combine_operators x y = combine_operators y x"
  by (auto simp: combine_operators_def)

lemma combine_operators_assoc:
  "combine_operators (combine_operators x y) z = combine_operators x (combine_operators y z)"
  by (auto simp: combine_operators_def)

lemma count_entries_distinct:
  "distinct (map fst xs) \<Longrightarrow>
   length (filter (\<lambda>(k, r). k = n) xs) = (if n \<in> fst ` set xs then 1 else 0)"
  by (induction xs) (auto simp: image_iff)

lemma dom_lookup: "dom (lookup d) = fst ` set (operators d)"
  by (simp add: lookup_def dom_map_of_conv_image_fst)

lemma dom_lookup_combine:
  "dom (lookup (combine_selective_builders a b)) = dom (lookup a) \<union> dom (lookup b)"
  by (auto simp: dom_def lookup_combine combine_options_def split: option.splits)

subsection \<open>The contents of a combination\<close>

text \<open>
  C1: for well-formed descriptors \<open>a\<close> and \<open>b\<close>, \<^verbatim>\<open>combine(a, b)\<close> is well-formed
  and holds exactly one entry for each operator name of either input and none for any other
  name; a name that only one input has keeps that input's record, and a name that both
  have gets \<^verbatim>\<open>include_all_overloads\<close> and \<^verbatim>\<open>is_used_for_training\<close> each as the
  logical OR of the two inputs' flags.
\<close>

theorem combine_selective_builders_entries:
  assumes "well_formed a" and "well_formed b"
  shows "well_formed (combine_selective_builders a b) \<and>
    dom (lookup (combine_selective_builders a b)) = dom (lookup a) \<union> dom (lookup b) \<and>
    (\<forall>n. length (filter (\<lambda>(k, r). k = n) (operators (combine_selective_builders a b))) =
          (if n \<in> dom (lookup a) \<union> dom (lookup b) then 1 else 0)) \<and>
    (\<forall>n. lookup b n = None \<longrightarrow> lookup (combine_selective_builders a b) n = lookup a n) \<and>
    (\<forall>n. lookup a n = None \<longrightarrow> lookup (combine_selective_builders a b) n = lookup b n) \<and>
    (\<forall>n r s. lookup a n = Some r \<and> lookup b n = Some s \<longrightarrow>
       (\<exists>t. lookup (combine_selective_builders a b) n = Some t \<and>
            include_all_overloads t = (include_all_overloads r \<or> include_all_overloads s) \<and>
            is_used_for_training t = (is_used_for_training r \<or> is_used_for_training s)))"
proof -
  let ?c = "combine_selective_builders a b"
  have wf: "well_formed ?c"
    using assms by (rule well_formed_combine)
  have dm: "dom (lookup ?c) = dom (lookup a) \<union> dom (lookup b)"
    by (rule dom_lookup_combine)
  have one: "length (filter (\<lambda>(k, r). k = n) (operators ?c)) =
          (if n \<in> dom (lookup a) \<union> dom (lookup b) then 1 else 0)" for n
  proof -
    have "distinct (map fst (operators ?c))"
      using wf by (simp only: well_formed_def)
    then have "length (filter (\<lambda>(k, r). k = n) (operators ?c)) =
        (if n \<in> dom (lookup ?c) then 1 else 0)"
      unfolding dom_lookup by (rule count_entries_distinct)
    then show ?thesis by (simp only: dm)
  qed
  have left: "lookup b n = None \<longrightarrow> lookup ?c n = lookup a n" for n
    by (simp add: lookup_combine)
  have right: "lookup a n = None \<longrightarrow> lookup ?c n = lookup b n" for n
    by (simp add: lookup_combine)
  have both: "lookup a n = Some r \<and> lookup b n = Some s \<longrightarrow>
       (\<exists>t. lookup ?c n = Some t \<and>
            include_all_overloads t = (include_all_overloads r \<or> include_all_overloads s) \<and>
            is_used_for_training t = (is_used_for_training r \<or> is_used_for_training s))" for n r s
    by (simp add: lookup_combine combine_operators_def)
  from wf dm one left right both show ?thesis by blast
qed

theorem combine_selective_builders_entries_witness:
  "well_formed scenario_B \<and> well_formed scenario_C \<and>
   well_formed (combine_selective_builders scenario_B scenario_C) \<and>
   operators (combine_selective_builders scenario_B scenario_C) =
     [(''aten::add'', \<lparr>include_all_overloads = True, is_used_for_training = True\<rparr>),
      (''aten::mul'', \<lparr>include_all_overloads = False, is_used_for_training = True\<rparr>)]"
proof -
  have b: "well_formed scenario_B" by (simp add: well_formed_def scenario_B_def)
  have c: "well_formed scenario_C" by (simp add: well_formed_def scenario_C_def)
  have v: "operators (combine_selective_builders scenario_B scenario_C) =
     [(''aten::add'', \<lparr>include_all_overloads = True, is_used_for_training = True\<rparr>),
      (''aten::mul'', \<lparr>include_all_overloads = False, is_used_for_training = True\<rparr>)]"
    by (simp add: combine_selective_builders_def combine_operators_def scenario_B_def scenario_C_def)
  from combine_selective_builders_entries [OF b c]
  have "well_formed (combine_selective_builders scenario_B scenario_C)" by blast
  with b c v show ?thesis by blast
qed

subsection \<open>The algebraic laws\<close>

text \<open>
  C3: \<^verbatim>\<open>combine\<close> is commutative. For descriptors \<open>a\<close> and \<open>b\<close>,
  \<^verbatim>\<open>combine(a, b) == combine(b, a)\<close>: the two results hold the same items (the
  equality of Python dicts) and so give every name the same record.
\<close>

theorem combine_selective_builders_commutative:
  assumes "well_formed a" and "well_formed b"
  shows "builder_eq (combine_selective_builders a b) (combine_selective_builders b a) \<and>
         lookup (combine_selective_builders a b) = lookup (combine_selective_builders b a)"
proof -
  have "lookup (combine_selective_builders a b) n = lookup (combine_selective_builders b a) n" for n
    unfolding lookup_combine
    by (rule combine_options_commute) (rule combine_operators_commute)
  then have eq: "lookup (combine_selective_builders a b) = lookup (combine_selective_builders b a)"
    by (rule ext)
  moreover have "well_formed (combine_selective_builders a b)"
    and "well_formed (combine_selective_builders b a)"
    using assms by (simp_all add: well_formed_combine)
  ultimately show ?thesis
    by (simp add: builder_eq_lookup)
qed

theorem combine_selective_builders_commutative_witness:
  "well_formed scenario_B \<and> well_formed scenario_C \<and>
   builder_eq (combine_selective_builders scenario_B scenario_C)
              (combine_selective_builders scenario_C scenario_B) \<and>
   operators (combine_selective_builders scenario_C scenario_B) =
     [(''aten::mul'', \<lparr>include_all_overloads = False, is_used_for_training = True\<rparr>),
      (''aten::add'', \<lparr>include_all_overloads = True, is_used_for_training = True\<rparr>)]"
proof -
  have b: "well_formed scenario_B" by (simp add: well_formed_def scenario_B_def)
  have c: "well_formed scenario_C" by (simp add: well_formed_def scenario_C_def)
  have v: "operators (combine_selective_builders scenario_C scenario_B) =
     [(''aten::mul'', \<lparr>include_all_overloads = False, is_used_for_training = True\<rparr>),
      (''aten::add'', \<lparr>include_all_overloads = True, is_used_for_training = True\<rparr>)]"
    by (simp add: combine_selective_builders_def combine_operators_def scenario_B_def scenario_C_def)
  from combine_selective_builders_commutative [OF b c] b c v show ?thesis by blast
qed

text \<open>
  C5: the empty descriptor is an identity of \<^verbatim>\<open>combine\<close>: for every descriptor
  \<open>a\<close>, \<^verbatim>\<open>combine(a, empty) == a\<close>, where \<^verbatim>\<open>empty\<close> holds no operator. The
  result is \<open>a\<close> itself, entry by entry and in \<open>a\<close>'s order.
\<close>

theorem combine_selective_builders_identity:
  "combine_selective_builders a from_yaml_dict_empty = a \<and>
   builder_eq (combine_selective_builders a from_yaml_dict_empty) a"
proof -
  have "map (\<lambda>(op_name, op). (op_name, op)) xs = xs" for xs :: "(string \<times> SelectiveBuildOperator) list"
    by (induction xs) auto
  then have "combine_selective_builders a from_yaml_dict_empty = a"
    by (simp add: combine_selective_builders_def from_yaml_dict_empty_def)
  then show ?thesis by (simp add: builder_eq_def)
qed

theorem combine_selective_builders_identity_witness:
  "combine_selective_builders scenario_C from_yaml_dict_empty = scenario_C"
  using combine_selective_builders_identity [of scenario_C] by blast

lemma well_formed_foldl_combine:
  "well_formed x \<Longrightarrow> \<forall>d\<in>set xs. well_formed d \<Longrightarrow>
   well_formed (foldl combine_selective_builders x xs)"
  by (induction xs arbitrary: x) (simp_all add: well_formed_combine)

lemma lookup_foldl_combine:
  "lookup (foldl combine_selective_builders x xs) =
   fold (\<lambda>d m n. combine_options combine_operators (m n) (lookup d n)) xs (lookup x)"
proof (induction xs arbitrary: x)
  case Nil
  then show ?case by simp
next
  case (Cons y ys)
  have "lookup (combine_selective_builders x y) =
      (\<lambda>n. combine_options combine_operators (lookup x n) (lookup y n))"
    by (rule ext) (rule lookup_combine)
  with Cons show ?case by simp
qed

lemma merge_step_commute:
  "(\<lambda>m n. combine_options combine_operators (m n) (lookup d n)) \<circ>
   (\<lambda>m n. combine_options combine_operators (m n) (lookup e n)) =
   (\<lambda>m n. combine_options combine_operators (m n) (lookup e n)) \<circ>
   (\<lambda>m n. combine_options combine_operators (m n) (lookup d n))"
proof -
  have "combine_options combine_operators (combine_options combine_operators u v) w =
        combine_options combine_operators (combine_options combine_operators u w) v" for u v w
    by (cases u; cases v; cases w) (auto simp: combine_operators_def)
  then show ?thesis by (simp add: fun_eq_iff)
qed

lemma lookup_reduce_permute:
  assumes "mset (x # xs) = mset (y # ys)"
  shows "lookup (foldl combine_selective_builders x xs) =
         lookup (foldl combine_selective_builders y ys)"
proof -
  let ?g = "\<lambda>d m n. combine_options combine_operators (m n) (lookup d n)"
  have start: "lookup (foldl combine_selective_builders z zs) = fold ?g (z # zs) (\<lambda>n. None)" for z zs
    by (simp add: lookup_foldl_combine)
  have "fold ?g (x # xs) = fold ?g (y # ys)"
    using assms by (intro fold_multiset_equiv) (simp_all only: merge_step_commute)
  then show ?thesis by (simp only: start)
qed

text \<open>
  C4: \<^verbatim>\<open>combine\<close> is associative,
  \<^verbatim>\<open>combine(combine(a, b), c) == combine(a, combine(b, c))\<close>, and the left-to-right
  \<^verbatim>\<open>reduce\<close> over a list of descriptors gives equal results for every permutation of
  the list: both for \<^verbatim>\<open>reduce\<close> on a non-empty list and for the fold of \<^verbatim>\<open>main\<close>,
  which also takes the empty list.
\<close>

theorem combine_selective_builders_associative:
  assumes "well_formed a" and "well_formed b" and "well_formed c"
    and "\<forall>d\<in>set xs. well_formed d" and "mset xs = mset ys"
  shows "builder_eq (combine_selective_builders (combine_selective_builders a b) c)
                    (combine_selective_builders a (combine_selective_builders b c)) \<and>
         (xs \<noteq> [] \<longrightarrow>
            (\<exists>r s. reduce combine_selective_builders xs = Inr r \<and>
                   reduce combine_selective_builders ys = Inr s \<and> builder_eq r s)) \<and>
         (\<exists>r s. main_combine xs = Inr r \<and> main_combine ys = Inr s \<and> builder_eq r s)"
proof -
  let ?l = "combine_selective_builders (combine_selective_builders a b) c"
  let ?r = "combine_selective_builders a (combine_selective_builders b c)"
  have "lookup ?l n = lookup ?r n" for n
    unfolding lookup_combine
    by (rule combine_options_assoc) (rule combine_operators_assoc)
  then have "lookup ?l = lookup ?r" by (rule ext)
  moreover have "well_formed ?l" and "well_formed ?r"
    using assms(1-3) by (simp_all add: well_formed_combine)
  ultimately have assoc: "builder_eq ?l ?r"
    by (simp add: builder_eq_lookup)
  have wf_ys: "\<forall>d\<in>set ys. well_formed d"
    using assms(4,5) by (metis set_mset_mset)
  have perm: "\<exists>r s. reduce combine_selective_builders xs = Inr r \<and>
                   reduce combine_selective_builders ys = Inr s \<and> builder_eq r s"
    if ne: "xs \<noteq> []"
  proof -
    from ne obtain x xs' where xs: "xs = x # xs'" by (cases xs) auto
    from ne assms(5) have "ys \<noteq> []" by auto
    then obtain y ys' where ys: "ys = y # ys'" by (cases ys) auto
    have "lookup (foldl combine_selective_builders x xs') =
          lookup (foldl combine_selective_builders y ys')"
      using assms(5) unfolding xs ys by (rule lookup_reduce_permute)
    moreover have "well_formed (foldl combine_selective_builders x xs')"
      using assms(4) unfolding xs by (intro well_formed_foldl_combine) simp_all
    moreover have "well_formed (foldl combine_selective_builders y ys')"
      using wf_ys unfolding ys by (intro well_formed_foldl_combine) simp_all
    ultimately have "builder_eq (foldl combine_selective_builders x xs')
                                (foldl combine_selective_builders y ys')"
      by (simp add: builder_eq_lookup)
    then show ?thesis by (simp add: reduce_def xs ys)
  qed
  have main: "\<exists>r s. main_combine xs = Inr r \<and> main_combine ys = Inr s \<and> builder_eq r s"
  proof (cases "xs = []")
    case True
    with assms(5) have "ys = []" by simp
    with True show ?thesis by (simp add: main_combine_def builder_eq_def)
  next
    case False
    with assms(5) have "ys \<noteq> []" by auto
    with False perm show ?thesis by (simp add: main_combine_def)
  qed
  from assoc perm main show ?thesis by blast
qed

theorem combine_selective_builders_associative_witness:
  "well_formed scenario_A \<and> well_formed scenario_B \<and> well_formed scenario_C \<and>
   builder_eq
     (combine_selective_builders (combine_selective_builders scenario_A scenario_B) scenario_C)
     (combine_selective_builders scenario_A (combine_selective_builders scenario_B scenario_C)) \<and>
   (\<exists>r s. main_combine [scenario_A, scenario_B, scenario_C] = Inr r \<and>
          main_combine [scenario_C, scenario_A, scenario_B] = Inr s \<and> builder_eq r s) \<and>
   main_combine [scenario_A, scenario_B, scenario_C] =
     Inr \<lparr>operators =
       [(''aten::add'', \<lparr>include_all_overloads = True, is_used_for_training = True\<rparr>),
        (''aten::mul'', \<lparr>include_all_overloads = False, is_used_for_training = True\<rparr>)]\<rparr> \<and>
   main_combine [scenario_C, scenario_A, scenario_B] =
     Inr \<lparr>operators =
       [(''aten::mul'', \<lparr>include_all_overloads = False, is_used_for_training = True\<rparr>),
        (''aten::add'', \<lparr>include_all_overloads = True, is_used_for_training = True\<rparr>)]\<rparr>"
proof -
  have a: "well_formed scenario_A" by (simp add: well_formed_def scenario_A_def)
  have b: "well_formed scenario_B" by (simp add: well_formed_def scenario_B_def)
  have c: "well_formed scenario_C" by (simp add: well_formed_def scenario_C_def)
  have all: "\<forall>d\<in>set [scenario_A, scenario_B, scenario_C]. well_formed d"
    using a b c by simp
  have p: "mset [scenario_A, scenario_B, scenario_C] = mset [scenario_C, scenario_A, scenario_B]"
    by simp
  have v1: "main_combine [scenario_A, scenario_B, scenario_C] =
     Inr \<lparr>operators =
       [(''aten::add'', \<lparr>include_all_overloads = True, is_used_for_training = True\<rparr>),
        (''aten::mul'', \<lparr>include_all_overloads = False, is_used_for_training = True\<rparr>)]\<rparr>"
    by (simp add: main_combine_def reduce_def combine_selective_builders_def
        combine_operators_def scenario_A_def scenario_B_def scenario_C_def)
  have v2: "main_combine [scenario_C, scenario_A, scenario_B] =
     Inr \<lparr>operators =
       [(''aten::mul'', \<lparr>include_all_overloads = False, is_used_for_training = True\<rparr>),
        (''aten::add'', \<lparr>include_all_overloads = True, is_used_for_training = True\<rparr>)]\<rparr>"
    by (simp add: main_combine_def reduce_def combine_selective_builders_def
        combine_operators_def scenario_A_def scenario_B_def scenario_C_def)
  from combine_selective_builders_associative [OF a b c all p] a b c v1 v2
  show ?thesis by blast
qed

subsection \<open>Validation\<close>

lemma include_overloads_loop_eq:
  "include_overloads_loop items ops =
     ops @ map fst (filter (\<lambda>(n, op). include_all_overloads op) items)"
  by (induction items ops rule: include_overloads_loop.induct) simp_all

lemma join_infix:
  "n \<in> set ops \<Longrightarrow> \<exists>pre post. join sep ops = pre @ n @ post"
proof (induction sep ops rule: join.induct)
  case (1 sep) then show ?case by simp
next
  case (2 sep x) then show ?case by (metis append_Nil append_Nil2 empty_iff insert_iff list.set(1) list.set(2) join.simps(2))
next
  case (3 sep x y ys)
  show ?case
  proof (cases "n = x")
    case True
    then show ?thesis by (metis append_Nil join.simps(3))
  next
    case False
    with 3 obtain pre post where "join sep (y # ys) = pre @ n @ post" by auto
    then have "join sep (x # y # ys) = (x @ sep @ pre) @ n @ post" by simp
    then show ?thesis by blast
  qed
qed

lemma main_combine_total:
  "\<exists>sb. main_combine sbs = Inr sb"
  by (cases sbs) (simp_all add: main_combine_def reduce_def)

lemma throw_if_cases:
  "throw_if_any_op_includes_overloads d =
     (if \<exists>n op. (n, op) \<in> set (operators d) \<and> include_all_overloads op
      then Inl (Exception (overloads_message
             (map fst (filter (\<lambda>(n, op). include_all_overloads op) (operators d)))))
      else Inr ())"
proof -
  have "filter (\<lambda>(n, op). include_all_overloads op) (operators d) \<noteq> [] \<longleftrightarrow>
        (\<exists>n op. (n, op) \<in> set (operators d) \<and> include_all_overloads op)"
    by (auto simp: filter_empty_conv)
  then show ?thesis
    by (simp add: throw_if_any_op_includes_overloads_def include_overloads_loop_eq Let_def)
qed

lemma overloads_message_names:
  assumes "(n, op) \<in> set (operators d)" and "include_all_overloads op"
  shows "\<exists>pre post. overloads_message
      (map fst (filter (\<lambda>(n, op). include_all_overloads op) (operators d))) = pre @ n @ post"
proof -
  have "n \<in> set (map fst (filter (\<lambda>(n, op). include_all_overloads op) (operators d)))"
    using assms by force
  then obtain pre post where
    "join '', '' (map fst (filter (\<lambda>(n, op). include_all_overloads op) (operators d))) =
       pre @ n @ post"
    using join_infix by blast
  then have "overloads_message
      (map fst (filter (\<lambda>(n, op). include_all_overloads op) (operators d))) =
      (''Operators that include all overloads are ''
      @ ''not allowed since --allow_include_all_overloads ''
      @ ''was specified: '' @ pre) @ n @ post"
    by (simp add: overloads_message_def)
  then show ?thesis by blast
qed

text \<open>
  C2: \<^verbatim>\<open>throw_if_any_op_includes_overloads(d)\<close> raises if and only if some operator
  record of \<open>d\<close> has \<^verbatim>\<open>include_all_overloads = True\<close>; what it raises is the
  exception whose message ends with the offending names joined by \<^verbatim>\<open>", "\<close>, so every
  offending name stands in the message. In \<^verbatim>\<open>main\<close> the fold always yields a combined
  descriptor \<open>sb\<close>; with \<^verbatim>\<open>--allow_include_all_overloads\<close> given, \<open>sb\<close> is handed
  on and nothing is raised; without it, the validation runs on \<open>sb\<close>, and the run fails
  exactly when \<open>sb\<close> has an offending operator.
\<close>

theorem throw_if_any_op_includes_overloads_spec:
  "((\<exists>e. throw_if_any_op_includes_overloads d = Inl e) \<longleftrightarrow>
      (\<exists>n op. (n, op) \<in> set (operators d) \<and> include_all_overloads op)) \<and>
   (\<forall>e. throw_if_any_op_includes_overloads d = Inl e \<longrightarrow>
      e = Exception (overloads_message
            (map fst (filter (\<lambda>(n, op). include_all_overloads op) (operators d))))) \<and>
   (\<forall>msg n op. throw_if_any_op_includes_overloads d = Inl (Exception msg) \<and>
      (n, op) \<in> set (operators d) \<and> include_all_overloads op \<longrightarrow>
      (\<exists>pre post. msg = pre @ n @ post)) \<and>
   (\<exists>sb. main_combine sbs = Inr sb \<and>
      main_validate True sbs = Inr sb \<and>
      main_validate False sbs =
        (case throw_if_any_op_includes_overloads sb of Inl e \<Rightarrow> Inl e | Inr u \<Rightarrow> Inr sb) \<and>
      ((\<exists>e. main_validate False sbs = Inl e) \<longleftrightarrow>
         (\<exists>n op. (n, op) \<in> set (operators sb) \<and> include_all_overloads op)))"
proof -
  have iff: "(\<exists>e. throw_if_any_op_includes_overloads d = Inl e) \<longleftrightarrow>
      (\<exists>n op. (n, op) \<in> set (operators d) \<and> include_all_overloads op)" for d
    by (simp add: throw_if_cases)
  have msg: "\<forall>e. throw_if_any_op_includes_overloads d = Inl e \<longrightarrow>
      e = Exception (overloads_message
            (map fst (filter (\<lambda>(n, op). include_all_overloads op) (operators d))))"
    by (auto simp: throw_if_cases split: if_splits)
  have names: "\<forall>msg n op. throw_if_any_op_includes_overloads d = Inl (Exception msg) \<and>
      (n, op) \<in> set (operators d) \<and> include_all_overloads op \<longrightarrow>
      (\<exists>pre post. msg = pre @ n @ post)"
    using msg overloads_message_names by blast
  obtain sb where sb: "main_combine sbs = Inr sb"
    using main_combine_total by blast
  have allow: "main_validate True sbs = Inr sb"
    by (simp add: main_validate_def sb)
  have strict: "main_validate False sbs =
        (case throw_if_any_op_includes_overloads sb of Inl e \<Rightarrow> Inl e | Inr u \<Rightarrow> Inr sb)"
    by (simp add: main_validate_def sb)
  have "(\<exists>e. main_validate False sbs = Inl e) \<longleftrightarrow>
      (\<exists>e. throw_if_any_op_includes_overloads sb = Inl e)"
    unfolding strict by (cases "throw_if_any_op_includes_overloads sb") simp_all
  then have fails: "(\<exists>e. main_validate False sbs = Inl e) \<longleftrightarrow>
         (\<exists>n op. (n, op) \<in> set (operators sb) \<and> include_all_overloads op)"
    by (simp only: iff)
  from iff [of d] msg names sb allow strict fails show ?thesis by blast
qed

theorem throw_if_any_op_includes_overloads_spec_witness:
  "(\<exists>n op. (n, op) \<in> set (operators scenario_B) \<and> include_all_overloads op) \<and>
   (\<exists>e. throw_if_any_op_includes_overloads scenario_B = Inl e) \<and>
   throw_if_any_op_includes_overloads scenario_B =
     Inl (Exception (overloads_message [''aten::add''])) \<and>
   throw_if_any_op_includes_overloads scenario_C = Inr () \<and>
   main_validate False [scenario_C, scenario_B] =
     Inl (Exception (overloads_message [''aten::add''])) \<and>
   main_validate True [scenario_C, scenario_B] =
     Inr \<lparr>operators =
       [(''aten::mul'', \<lparr>include_all_overloads = False, is_used_for_training = True\<rparr>),
        (''aten::add'', \<lparr>include_all_overloads = True, is_used_for_training = True\<rparr>)]\<rparr>"
proof -
  have m: "\<exists>n op. (n, op) \<in> set (operators scenario_B) \<and> include_all_overloads op"
    by (simp add: scenario_B_def)
  have "(\<exists>e. throw_if_any_op_includes_overloads scenario_B = Inl e) \<longleftrightarrow>
      (\<exists>n op. (n, op) \<in> set (operators scenario_B) \<and> include_all_overloads op)"
    using throw_if_any_op_includes_overloads_spec [of scenario_B "[]"] by (rule conjunct1)
  with m have e: "\<exists>e. throw_if_any_op_includes_overloads scenario_B = Inl e"
    by (rule rev_iffD2)
  have v: "throw_if_any_op_includes_overloads scenario_B =
     Inl (Exception (overloads_message [''aten::add'']))"
    by (simp add: throw_if_any_op_includes_overloads_def scenario_B_def)
  have c: "throw_if_any_op_includes_overloads scenario_C = Inr ()"
    by (simp add: throw_if_any_op_includes_overloads_def scenario_C_def)
  have s: "main_validate False [scenario_C, scenario_B] =
     Inl (Exception (overloads_message [''aten::add'']))"
    by (simp add: main_validate_def main_combine_def reduce_def combine_selective_builders_def
        combine_operators_def throw_if_any_op_includes_overloads_def scenario_B_def scenario_C_def)
  have a: "main_validate True [scenario_C, scenario_B] =
     Inr \<lparr>operators =
       [(''aten::mul'', \<lparr>include_all_overloads = False, is_used_for_training = True\<rparr>),
        (''aten::add'', \<lparr>include_all_overloads = True, is_used_for_training = True\<rparr>)]\<rparr>"
    by (simp add: main_validate_def main_combine_def reduce_def combine_selective_builders_def
        combine_operators_def scenario_B_def scenario_C_def)
  from m e v c s a show ?thesis by (intro conjI)
qed

text \<open>
  C10: with no input descriptor, the fold of \<^verbatim>\<open>main\<close> raises nothing and yields the
  empty descriptor \<^verbatim>\<open>SelectiveBuilder.from_yaml_dict({})\<close>, which passes the validation
  and is handed to serialisation, whether or not the flag is given.
\<close>

theorem main_combine_empty:
  "main_combine [] = Inr from_yaml_dict_empty \<and>
   main_validate allow_include_all_overloads [] = Inr from_yaml_dict_empty"
  by (simp add: main_combine_def main_validate_def throw_if_any_op_includes_overloads_def
      from_yaml_dict_empty_def)

theorem main_combine_empty_witness:
  "main_combine [] = Inr \<lparr>operators = []\<rparr> \<and> main_validate False [] = Inr \<lparr>operators = []\<rparr>"
  using main_combine_empty [of False] by (simp add: from_yaml_dict_empty_def)

subsection \<open>The generated source file across runs\<close>

lemma supported_hashes_loop_eq:
  "supported_hashes_loop hs acc = acc @ concat (map hash_line hs)"
  by (induction hs acc rule: supported_hashes_loop.induct) simp_all

lemma distinct_set_update:
  "distinct s \<Longrightarrow> distinct (set_update s xs)"
  unfolding set_update_def by (induction xs arbitrary: s) simp_all

lemma distinct_update_from_assets:
  "distinct s \<Longrightarrow> distinct (update_from_assets assets s)"
  by (induction assets s rule: update_from_assets.induct) (simp_all add: distinct_set_update)

lemma distinct_collect_md5_hashes:
  "distinct s \<Longrightarrow> collect_md5_hashes json_loads model_dicts s = Inr hs \<Longrightarrow> distinct hs"
proof (induction json_loads model_dicts s rule: collect_md5_hashes.induct)
  case (1 json_loads md5_hashes)
  then show ?case by simp
next
  case (2 json_loads model_dict model_dicts md5_hashes)
  then show ?case
    by (auto simp: distinct_update_from_assets split: option.splits list.splits sum.splits if_splits)
qed

lemma inj_hash_line: "inj hash_line"
  by (rule injI) (simp add: hash_line_def)

lemma valid_iteration_lines:
  assumes "valid_iteration it" and "distinct hs"
  shows "mset (map hash_line (it hs)) = mset (map hash_line hs)"
    and "distinct (map hash_line (it hs))"
proof -
  have m: "mset (it hs) = mset hs"
    using assms(1) by (simp add: valid_iteration_def)
  then show "mset (map hash_line (it hs)) = mset (map hash_line hs)"
    by (metis mset_map)
  from m assms(2) have "distinct (it hs)"
    by (metis distinct_count_atmost_1 set_mset_mset)
  then show "distinct (map hash_line (it hs))"
    by (simp add: distinct_map inj_hash_line inj_on_subset [OF inj_hash_line])
qed

text \<open>
  C9, as amended: for a fixed sequence of model dicts, two runs that iterate over the set
  of md5 hashes in any two orders either both raise the same exception or both write a
  file, and the two files have the same text before and after the hash lines and the same
  hash lines, one for each md5 hash of the set and none twice; only the order of the hash
  lines follows the iteration order of the set. Where the two orders agree, the files are
  identical.
\<close>

theorem gen_supported_mobile_models_up_to_order:
  assumes "valid_iteration it1" and "valid_iteration it2"
  shows "case collect_md5_hashes json_loads model_dicts [] of
       Inl e \<Rightarrow>
         gen_supported_mobile_models json_loads it1 model_dicts = Inl e \<and>
         gen_supported_mobile_models json_loads it2 model_dicts = Inl e
     | Inr md5_hashes \<Rightarrow>
         gen_supported_mobile_models json_loads it1 model_dicts =
           Inr (source_before_hashes @ concat (map hash_line (it1 md5_hashes))
                @ source_after_hashes) \<and>
         gen_supported_mobile_models json_loads it2 model_dicts =
           Inr (source_before_hashes @ concat (map hash_line (it2 md5_hashes))
                @ source_after_hashes) \<and>
         mset (map hash_line (it1 md5_hashes)) = mset (map hash_line (it2 md5_hashes)) \<and>
         set (it1 md5_hashes) = set md5_hashes \<and>
         distinct (map hash_line (it1 md5_hashes)) \<and>
         distinct (map hash_line (it2 md5_hashes)) \<and>
         (it1 md5_hashes = it2 md5_hashes \<longrightarrow>
            gen_supported_mobile_models json_loads it1 model_dicts =
            gen_supported_mobile_models json_loads it2 model_dicts)"
proof (cases "collect_md5_hashes json_loads model_dicts []")
  case (Inl e)
  then show ?thesis by (simp add: gen_supported_mobile_models_def)
next
  case (Inr hs)
  then have d: "distinct hs"
    using distinct_collect_md5_hashes [of "[]" json_loads model_dicts hs] by simp
  have g: "gen_supported_mobile_models json_loads it model_dicts =
      Inr (source_before_hashes @ concat (map hash_line (it hs)) @ source_after_hashes)" for it
    by (simp add: gen_supported_mobile_models_def Inr supported_hashes_loop_eq)
  have m: "mset (map hash_line (it1 hs)) = mset (map hash_line (it2 hs))"
    using valid_iteration_lines(1) [OF assms(1) d] valid_iteration_lines(1) [OF assms(2) d]
    by simp
  have s: "set (it1 hs) = set hs"
    using assms(1) by (metis valid_iteration_def set_mset_mset)
  have d1: "distinct (map hash_line (it1 hs))" and d2: "distinct (map hash_line (it2 hs))"
    using valid_iteration_lines(2) [OF _ d] assms by blast+
  have same: "it1 hs = it2 hs \<longrightarrow>
      gen_supported_mobile_models json_loads it1 model_dicts =
      gen_supported_mobile_models json_loads it2 model_dicts"
    by (simp add: g)
  show ?thesis
    unfolding Inr sum.case using g [of it1] g [of it2] m s d1 d2 same by (intro conjI)
qed

lemma sample_collect:
  "collect_md5_hashes sample_json_loads [sample_model_dict] [] = Inr [''0a1b'', ''2c3d'']"
  by (simp add: sample_json_loads_def sample_model_dict_def sample_debug_info_def set_update_def)

theorem gen_supported_mobile_models_up_to_order_witness:
  "valid_iteration insertion_order \<and> valid_iteration reverse_order \<and>
   gen_supported_mobile_models sample_json_loads insertion_order [sample_model_dict] =
     Inr (source_before_hashes @ concat [hash_line ''0a1b'', hash_line ''2c3d'']
          @ source_after_hashes) \<and>
   gen_supported_mobile_models sample_json_loads reverse_order [sample_model_dict] =
     Inr (source_before_hashes @ concat [hash_line ''2c3d'', hash_line ''0a1b'']
          @ source_after_hashes)"
proof -
  have v1: "valid_iteration insertion_order"
    by (simp add: valid_iteration_def insertion_order_def)
  have v2: "valid_iteration reverse_order"
    by (simp add: valid_iteration_def reverse_order_def)
  from gen_supported_mobile_models_up_to_order
    [OF v1 v2, of sample_json_loads "[sample_model_dict]"]
  have "gen_supported_mobile_models sample_json_loads insertion_order [sample_model_dict] =
     Inr (source_before_hashes @ concat [hash_line ''0a1b'', hash_line ''2c3d'']
          @ source_after_hashes)"
   and "gen_supported_mobile_models sample_json_loads reverse_order [sample_model_dict] =
     Inr (source_before_hashes @ concat [hash_line ''2c3d'', hash_line ''0a1b'']
          @ source_after_hashes)"
    unfolding sample_collect sum.case by (simp_all add: insertion_order_def reverse_order_def)
  with v1 v2 show ?thesis by (intro conjI)
qed

text \<open>
  C9 as stated, that two runs on the same model dicts write identical files, fails
  when the set holds two hashes and the runs visit them in different orders.
\<close>

theorem gen_supported_mobile_models_order_counterexample:
  "valid_iteration insertion_order \<and> valid_iteration reverse_order \<and>
   gen_supported_mobile_models sample_json_loads insertion_order [sample_model_dict] \<noteq>
   gen_supported_mobile_models sample_json_loads reverse_order [sample_model_dict]"
proof -
  have v1: "valid_iteration insertion_order"
    by (simp add: valid_iteration_def insertion_order_def)
  have v2: "valid_iteration reverse_order"
    by (simp add: valid_iteration_def reverse_order_def)
  have "hash_line ''0a1b'' @ hash_line ''2c3d'' \<noteq> hash_line ''2c3d'' @ hash_line ''0a1b''"
    by (simp add: hash_line_def)
  then have "gen_supported_mobile_models sample_json_loads insertion_order [sample_model_dict] \<noteq>
   gen_supported_mobile_models sample_json_loads reverse_order [sample_model_dict]"
    unfolding gen_supported_mobile_models_def sample_collect
    by (simp add: supported_hashes_loop_eq insertion_order_def reverse_order_def)
  with v1 v2 show ?thesis by (intro conjI)
qed

subsection \<open>What the calls leave unchanged\<close>

lemma append_selected_run:
  "ops < length s \<Longrightarrow> s ! ops = ListObj acc \<Longrightarrow>
   append_selected selected items ops s =
     (Inr (), s[ops := ListObj (acc @ map fst (filter (\<lambda>(n, op). selected op) items))])"
proof (induction items arbitrary: s acc)
  case Nil
  then have "s[ops := ListObj acc] = s" by (metis list_update_id)
  then show ?case by simp
next
  case (Cons item items)
  obtain op_name op where item: "item = (op_name, op)" by (cases item)
  show ?case
  proof (cases "selected op")
    case True
    have "append_selected selected items ops (s[ops := ListObj (acc @ [op_name])]) =
        (Inr (), (s[ops := ListObj (acc @ [op_name])])
           [ops := ListObj ((acc @ [op_name]) @ map fst (filter (\<lambda>(n, op). selected op) items))])"
      using Cons.prems by (intro Cons.IH) simp_all
    with True Cons.prems show ?thesis
      by (simp add: item list_append_def)
  next
    case False
    with Cons show ?thesis by (simp add: item)
  qed
qed

lemma collect_names_run:
  assumes "r < length s" and "s ! r = BuilderObj d"
  shows "collect_names selected r s =
     (Inr (map fst (filter (\<lambda>(n, op). selected op) (operators d))),
      s @ [ListObj (map fst (filter (\<lambda>(n, op). selected op) (operators d)))])"
proof -
  let ?names = "map fst (filter (\<lambda>(n, op). selected op) (operators d))"
  have items: "operators_items r (s @ [ListObj []]) = Inr (operators d)"
    using assms by (simp add: operators_items_def nth_append)
  have loop: "append_selected selected (operators d) (length s) (s @ [ListObj []]) =
      (Inr (), s @ [ListObj ?names])"
    using append_selected_run [of "length s" "s @ [ListObj []]" "[]" selected "operators d"]
    by simp
  have elems: "list_elements (length s) (s @ [ListObj ?names]) = Inr ?names"
    by (simp add: list_elements_def)
  show ?thesis
    by (simp add: collect_names_def new_object_def items loop elems)
qed

lemma collect_names_fail:
  assumes "\<not> (r < length s \<and> (\<exists>d. s ! r = BuilderObj d))"
  shows "collect_names selected r s = (Inl AttributeError, s @ [ListObj []])"
proof -
  have "operators_items r (s @ [ListObj []]) = Inl AttributeError"
    using assms by (auto simp: operators_items_def nth_append split: pyobj.splits)
  then show ?thesis
    by (simp add: collect_names_def new_object_def)
qed

lemma collect_names_frame:
  "take (length s) (snd (collect_names selected r s)) = s"
proof (cases "r < length s \<and> (\<exists>d. s ! r = BuilderObj d)")
  case True
  then obtain d where "r < length s" and "s ! r = BuilderObj d" by blast
  then show ?thesis by (simp add: collect_names_run)
next
  case False
  then show ?thesis by (simp add: collect_names_fail)
qed

lemma return_set_frame:
  "take n (snd run) = s \<Longrightarrow> n \<le> length (snd run) \<Longrightarrow> take n (snd (return_set run)) = s"
  by (cases run) (auto simp: return_set_def new_object_def split: sum.splits)

lemma collect_names_length:
  "length s \<le> length (snd (collect_names selected r s))"
  by (metis collect_names_frame length_take min.cobounded2 nat_le_linear min_def)


lemma return_set_run:
  "return_set (Inr names, s) = (Inr (length s), s @ [SetObj (set names)])"
  by (simp add: return_set_def new_object_def)

lemma throw_run_frame:
  "take (length s) (snd (throw_if_any_op_includes_overloads_run r s)) = s"
proof -
  obtain res s' where c: "collect_names include_all_overloads r s = (res, s')"
    by (cases "collect_names include_all_overloads r s")
  then have "take (length s) s' = s"
    using collect_names_frame [of s include_all_overloads r] by simp
  then show ?thesis
    by (cases res) (simp_all add: throw_if_any_op_includes_overloads_run_def c)
qed

lemma combine_run_frame:
  "take (length s) (snd (combine_selective_builders_run lhs rhs s)) = s"
  by (auto simp: combine_selective_builders_run_def new_object_def split: pyobj.splits)

text \<open>
  C8: no core operation changes its input descriptor. Whatever the references \<open>r\<close> and
  \<open>r'\<close> are, and whether the call returns or raises, every object that the store held
  before a call of \<^verbatim>\<open>extract_all_operators\<close>, \<^verbatim>\<open>extract_training_operators\<close>,
  \<^verbatim>\<open>throw_if_any_op_includes_overloads\<close> or \<^verbatim>\<open>combine\<close> is the same after it: the
  calls only add objects. When \<open>r\<close> refers to a descriptor \<open>d\<close>, the three queries
  return what the functions on values compute for \<open>d\<close> and \<open>r\<close> still refers to \<open>d\<close>;
  when \<open>r'\<close> refers to a descriptor \<open>d'\<close> too, \<^verbatim>\<open>combine\<close> returns a reference to a
  new object that holds the combination, and both arguments are unchanged.
\<close>

theorem core_operations_leave_inputs_unchanged:
  "take (length s) (snd (extract_all_operators_run r s)) = s \<and>
   take (length s) (snd (extract_training_operators_run r s)) = s \<and>
   take (length s) (snd (throw_if_any_op_includes_overloads_run r s)) = s \<and>
   take (length s) (snd (combine_selective_builders_run r r' s)) = s \<and>
   (r < length s \<and> s ! r = BuilderObj d \<longrightarrow>
      (\<exists>res s'. extract_all_operators_run r s = (Inr res, s') \<and>
         s' ! r = BuilderObj d \<and> s' ! res = SetObj (extract_all_operators d)) \<and>
      (\<exists>res s'. extract_training_operators_run r s = (Inr res, s') \<and>
         s' ! r = BuilderObj d \<and> s' ! res = SetObj (extract_training_operators d)) \<and>
      (\<exists>s'. throw_if_any_op_includes_overloads_run r s =
               (throw_if_any_op_includes_overloads d, s') \<and>
         s' ! r = BuilderObj d) \<and>
      (r' < length s \<and> s ! r' = BuilderObj d' \<longrightarrow>
         (\<exists>res s'. combine_selective_builders_run r r' s = (Inr res, s') \<and>
            res = length s \<and>
            s' ! res = BuilderObj (combine_selective_builders d d') \<and>
            s' ! r = BuilderObj d \<and> s' ! r' = BuilderObj d')))"
proof -
  have frame_set: "take (length s) (snd (return_set (collect_names selected r s))) = s"
    for selected
    using collect_names_frame collect_names_length by (rule return_set_frame)
  have f1: "take (length s) (snd (extract_all_operators_run r s)) = s"
    unfolding extract_all_operators_run_def by (rule frame_set)
  have f2: "take (length s) (snd (extract_training_operators_run r s)) = s"
    unfolding extract_training_operators_run_def by (rule frame_set)
  have f3: "take (length s) (snd (throw_if_any_op_includes_overloads_run r s)) = s"
    by (rule throw_run_frame)
  have f4: "take (length s) (snd (combine_selective_builders_run r r' s)) = s"
    by (rule combine_run_frame)
  have ok: "(\<exists>res s'. extract_all_operators_run r s = (Inr res, s') \<and>
         s' ! r = BuilderObj d \<and> s' ! res = SetObj (extract_all_operators d)) \<and>
      (\<exists>res s'. extract_training_operators_run r s = (Inr res, s') \<and>
         s' ! r = BuilderObj d \<and> s' ! res = SetObj (extract_training_operators d)) \<and>
      (\<exists>s'. throw_if_any_op_includes_overloads_run r s =
               (throw_if_any_op_includes_overloads d, s') \<and>
         s' ! r = BuilderObj d) \<and>
      (r' < length s \<and> s ! r' = BuilderObj d' \<longrightarrow>
         (\<exists>res s'. combine_selective_builders_run r r' s = (Inr res, s') \<and>
            res = length s \<and>
            s' ! res = BuilderObj (combine_selective_builders d d') \<and>
            s' ! r = BuilderObj d \<and> s' ! r' = BuilderObj d'))"
    if r: "r < length s" and d: "s ! r = BuilderObj d"
  proof -
    have a: "\<exists>res s'. extract_all_operators_run r s = (Inr res, s') \<and>
         s' ! r = BuilderObj d \<and> s' ! res = SetObj (extract_all_operators d)"
      using r d
      by (simp add: extract_all_operators_run_def collect_names_run return_set_run
          extract_all_operators_def all_operators_loop_eq nth_append)
    have t: "\<exists>res s'. extract_training_operators_run r s = (Inr res, s') \<and>
         s' ! r = BuilderObj d \<and> s' ! res = SetObj (extract_training_operators d)"
      using r d
      by (simp add: extract_training_operators_run_def collect_names_run return_set_run
          extract_training_operators_def training_operators_loop_eq nth_append)
    have v: "\<exists>s'. throw_if_any_op_includes_overloads_run r s =
               (throw_if_any_op_includes_overloads d, s') \<and> s' ! r = BuilderObj d"
      using r d
      by (simp add: throw_if_any_op_includes_overloads_run_def collect_names_run
          throw_if_any_op_includes_overloads_def include_overloads_loop_eq nth_append)
    have c: "\<exists>res s'. combine_selective_builders_run r r' s = (Inr res, s') \<and>
            res = length s \<and>
            s' ! res = BuilderObj (combine_selective_builders d d') \<and>
            s' ! r = BuilderObj d \<and> s' ! r' = BuilderObj d'"
      if "r' < length s" and "s ! r' = BuilderObj d'"
      using r d that
      by (simp add: combine_selective_builders_run_def new_object_def nth_append)
    from a t v c show ?thesis by blast
  qed
  from f1 f2 f3 f4 ok show ?thesis by blast
qed

theorem core_operations_leave_inputs_unchanged_witness:
  "take 2 (snd (extract_all_operators_run 0 sample_store)) = sample_store \<and>
   take 2 (snd (extract_training_operators_run 0 sample_store)) = sample_store \<and>
   take 2 (snd (throw_if_any_op_includes_overloads_run 0 sample_store)) = sample_store \<and>
   take 2 (snd (combine_selective_builders_run 0 1 sample_store)) = sample_store \<and>
   extract_all_operators_run 0 sample_store =
     (Inr 3, sample_store @ [ListObj [''aten::add'', ''aten::mul''],
                           SetObj {''aten::add'', ''aten::mul''}]) \<and>
   fst (throw_if_any_op_includes_overloads_run 0 sample_store) =
     Inl (Exception (overloads_message [''aten::add'']))"
proof -
  have l: "length sample_store = 2" by (simp add: sample_store_def)
  have e: "extract_all_operators_run 0 sample_store =
     (Inr 3, sample_store @ [ListObj [''aten::add'', ''aten::mul''],
                           SetObj {''aten::add'', ''aten::mul''}])"
    by (simp add: extract_all_operators_run_def collect_names_def new_object_def
        operators_items_def list_append_def list_elements_def return_set_def
        sample_store_def scenario_D_def)
  have t: "fst (throw_if_any_op_includes_overloads_run 0 sample_store) =
     Inl (Exception (overloads_message [''aten::add'']))"
    by (simp add: throw_if_any_op_includes_overloads_run_def collect_names_def new_object_def
        operators_items_def list_append_def list_elements_def
        sample_store_def scenario_D_def)
  from core_operations_leave_inputs_unchanged [of sample_store 0 1] e t
  show ?thesis unfolding l by blast
qed

end
